theory Spec2Isabelle
  imports Complex_Main "HOL-Library.Sublist"
begin

section \<open>Sentiment bands (main script and chart.js)\<close>

text \<open>
  A compound sentiment score is a finite number (the glossary: a value in \<open>[-1, 1]\<close>).
  Comparisons of such numbers are modelled on \<open>real\<close>; the literal \<open>0.05\<close> of the
  source is the threshold of every comparison below.
\<close>

definition getSentimentClass :: "real \<Rightarrow> string" where
  "getSentimentClass score =
     (if score \<ge> 0.05 then ''sentiment-positive''
      else if score \<le> - 0.05 then ''sentiment-negative''
      else ''sentiment-neutral'')"

definition getSentimentText :: "real \<Rightarrow> string" where
  "getSentimentText score =
     (if score \<ge> 0.05 then ''Positive''
      else if score \<le> - 0.05 then ''Negative''
      else ''Neutral'')"

text \<open>The arrow functions mapped over \<open>scores\<close> in \<open>createEntitySentimentChart\<close>.\<close>

definition entity_backgroundColor :: "real \<Rightarrow> string" where
  "entity_backgroundColor score =
     (if score \<ge> 0.05 then ''rgba(76, 175, 80, 0.6)''
      else if score \<le> - 0.05 then ''rgba(244, 67, 54, 0.6)''
      else ''rgba(158, 158, 158, 0.6)'')"

definition entity_borderColor :: "real \<Rightarrow> string" where
  "entity_borderColor score =
     (if score \<ge> 0.05 then ''rgba(76, 175, 80, 1)''
      else if score \<le> - 0.05 then ''rgba(244, 67, 54, 1)''
      else ''rgba(158, 158, 158, 1)'')"

text \<open>The arrow function mapped over \<open>scores\<close> in \<open>createCommentTimelineChart\<close>, and the
  band name its tooltip prints.\<close>

definition timeline_pointColor :: "real \<Rightarrow> string" where
  "timeline_pointColor score =
     (if score \<ge> 0.05 then ''rgba(76, 175, 80, 1)''
      else if score \<le> - 0.05 then ''rgba(244, 67, 54, 1)''
      else ''rgba(158, 158, 158, 1)'')"

definition timeline_sentiment :: "real \<Rightarrow> string" where
  "timeline_sentiment y =
     (if y \<ge> 0.05 then ''Positive'' else (if y \<le> - 0.05 then ''Negative'' else ''Neutral''))"

section \<open>Decimal numerals\<close>

text \<open>The decimal digits of a natural number, most significant first, as JavaScript
  prints an integer.\<close>

definition digit_char :: "nat \<Rightarrow> char" where
  "digit_char k = ''0123456789'' ! k"

fun show_nat :: "nat \<Rightarrow> string" where
  "show_nat n = (if n < 10 then [digit_char n] else show_nat (n div 10) @ [digit_char (n mod 10)])"

declare show_nat.simps [simp del]

definition show_int :: "int \<Rightarrow> string" where
  "show_int i = (if i < 0 then ''-'' @ show_nat (nat (- i)) else show_nat (nat i))"

section \<open>Chart tooltips (chart.js)\<close>




section \<open>Chart rendering (chart.js)\<close>

text \<open>
  The charting library is an external collaborator. Its registry is a list of chart
  instances, each bound to a canvas; a canvas element is named by its \<open>id\<close>, which is how
  \<open>document.getElementById\<close> finds it. \<open>Chart.getChart\<close> looks an instance up by canvas,
  \<open>destroy\<close> takes that instance out of the registry and \<open>new Chart\<close> registers one.
  Every call into the library is also recorded, in order, in \<open>calls\<close>.
\<close>

datatype chart_config =
    LineConfig "string list" "real list" "real list" "real list"
  | DoughnutConfig real real real
  | BarConfig "string list" "real list" "string list" "string list"
  | ScatterConfig "(string \<times> real option) list" "string list"

datatype library_call = GetChart string | Destroy string | NewChart string chart_config

record chart_page =
  canvas_ids :: "string list"
  instances :: "(string \<times> chart_config) list"
  console_error :: "string list"
  calls :: "library_call list"

definition getElementById_canvas :: "string \<Rightarrow> chart_page \<Rightarrow> string option" where
  "getElementById_canvas canvasId pg =
     (if canvasId \<in> set (canvas_ids pg) then Some canvasId else None)"

definition getChart ::
    "string \<Rightarrow> chart_page \<Rightarrow> (string \<times> chart_config) option \<times> chart_page" where
  "getChart canvas pg =
     (find (\<lambda>inst. fst inst = canvas) (instances pg), pg\<lparr>calls := calls pg @ [GetChart canvas]\<rparr>)"

definition destroy :: "string \<times> chart_config \<Rightarrow> chart_page \<Rightarrow> chart_page" where
  "destroy inst pg =
     pg\<lparr>instances := remove1 inst (instances pg), calls := calls pg @ [Destroy (fst inst)]\<rparr>"

definition new_Chart :: "string \<Rightarrow> chart_config \<Rightarrow> chart_page \<Rightarrow> chart_page" where
  "new_Chart canvas config pg =
     pg\<lparr>instances := instances pg @ [(canvas, config)],
        calls := calls pg @ [NewChart canvas config]\<rparr>"

text \<open>The part the four render functions share, word for word: find the canvas or log and
  return; destroy the chart bound to it if there is one; construct the new chart.\<close>

definition render_on :: "string \<Rightarrow> chart_config \<Rightarrow> chart_page \<Rightarrow> chart_page" where
  "render_on canvasId config pg =
     (case getElementById_canvas canvasId pg of
        None \<Rightarrow>
          pg\<lparr>console_error :=
               console_error pg @ [''Canvas element '' @ canvasId @ '' not found'']\<rparr>
      | Some canvas \<Rightarrow>
          (let (existingChart, pg) = getChart canvas pg;
               pg = (case existingChart of Some inst \<Rightarrow> destroy inst pg | None \<Rightarrow> pg)
           in new_Chart canvas config pg))"

definition createSentimentTrendChart ::
    "string \<Rightarrow> string list \<Rightarrow> real list \<Rightarrow> real list \<Rightarrow> real list \<Rightarrow> chart_page \<Rightarrow> chart_page" where
  "createSentimentTrendChart canvasId dates positive negative neutral =
     render_on canvasId (LineConfig dates positive negative neutral)"

definition createSentimentPieChart ::
    "string \<Rightarrow> real \<Rightarrow> real \<Rightarrow> real \<Rightarrow> chart_page \<Rightarrow> chart_page" where
  "createSentimentPieChart canvasId positive negative neutral =
     render_on canvasId (DoughnutConfig positive negative neutral)"

definition createEntitySentimentChart ::
    "string \<Rightarrow> string list \<Rightarrow> real list \<Rightarrow> chart_page \<Rightarrow> chart_page" where
  "createEntitySentimentChart canvasId labels scores =
     render_on canvasId
       (BarConfig labels scores (map entity_backgroundColor scores) (map entity_borderColor scores))"

definition createCommentTimelineChart ::
    "string \<Rightarrow> string list \<Rightarrow> real list \<Rightarrow> chart_page \<Rightarrow> chart_page" where
  "createCommentTimelineChart canvasId timestamps scores =
     render_on canvasId
       (ScatterConfig
          (map (\<lambda>i. (timestamps ! i, if i < length scores then Some (scores ! i) else None))
             [0..<length timestamps])
          (map timeline_pointColor scores))"

datatype render_call =
    Trend string "string list" "real list" "real list" "real list"
  | Pie string real real real
  | Entity string "string list" "real list"
  | Timeline string "string list" "real list"

fun run_call :: "chart_page \<Rightarrow> render_call \<Rightarrow> chart_page" where
  "run_call pg (Trend c ds p n u) = createSentimentTrendChart c ds p n u pg"
| "run_call pg (Pie c p n u) = createSentimentPieChart c p n u pg"
| "run_call pg (Entity c ls ss) = createEntitySentimentChart c ls ss pg"
| "run_call pg (Timeline c ts ss) = createCommentTimelineChart c ts ss pg"

fun canvas_of :: "render_call \<Rightarrow> string" where
  "canvas_of (Trend c ds p n u) = c"
| "canvas_of (Pie c p n u) = c"
| "canvas_of (Entity c ls ss) = c"
| "canvas_of (Timeline c ts ss) = c"

fun config_of :: "render_call \<Rightarrow> chart_config" where
  "config_of (Trend c ds p n u) = LineConfig ds p n u"
| "config_of (Pie c p n u) = DoughnutConfig p n u"
| "config_of (Entity c ls ss) =
     BarConfig ls ss (map entity_backgroundColor ss) (map entity_borderColor ss)"
| "config_of (Timeline c ts ss) =
     ScatterConfig
       (map (\<lambda>i. (ts ! i, if i < length ss then Some (ss ! i) else None)) [0..<length ts])
       (map timeline_pointColor ss)"

definition bound_to :: "string \<Rightarrow> chart_page \<Rightarrow> nat" where
  "bound_to canvas pg = length (filter (\<lambda>inst. fst inst = canvas) (instances pg))"

text \<open>A page with two canvases and no chart yet.\<close>

definition sample_page :: chart_page where
  "sample_page =
     \<lparr>canvas_ids = [''trend-chart'', ''pie-chart''], instances = [], console_error = [],
      calls = []\<rparr>"

section \<open>Spinner overlay and button spinner (spinner.js)\<close>

text \<open>
  The page as \<open>showSpinner\<close> and \<open>hideSpinner\<close> see it: whether the
  \<open>.spinner-overlay\<close> element has the \<open>active\<close> class and what the \<open>.spinner-message\<close>
  element says (\<open>None\<close> when \<open>document.querySelector\<close> finds no such element), and the
  \<open>overflow\<close> style of the body.
\<close>

record spinner_page =
  overlay_active :: "bool option"
  spinner_message :: "string option"
  body_overflow :: string


definition hideSpinner :: "spinner_page \<Rightarrow> spinner_page" where
  "hideSpinner pg =
     pg\<lparr>overlay_active := map_option (\<lambda>_. False) (overlay_active pg), body_overflow := []\<rparr>"

text \<open>
  A button as \<open>addButtonSpinner\<close> and \<open>removeButtonSpinner\<close> see it: its inner markup,
  its \<open>data-original-text\<close> attribute (\<open>None\<close> when absent) and its \<open>disabled\<close> flag. The
  document maps an id to the button \<open>document.getElementById\<close> finds. Inner markup is
  taken to read back as it was written.
\<close>

record button =
  innerHTML :: string
  data_original_text :: "string option"
  disabled :: bool

definition spinner_markup :: string where
  "spinner_markup = ''<span class=\"btn-spinner\"></span> Analyzing...''"

definition addButtonSpinner ::
    "string \<Rightarrow> bool \<Rightarrow> (string \<rightharpoonup> button) \<Rightarrow> (string \<rightharpoonup> button)" where
  "addButtonSpinner buttonId disable doc =
     (case doc buttonId of
        None \<Rightarrow> doc
      | Some button \<Rightarrow>
          (let button = button\<lparr>data_original_text := Some (innerHTML button)\<rparr>;
               button = button\<lparr>innerHTML := spinner_markup\<rparr>;
               button = (if disable then button\<lparr>disabled := True\<rparr> else button)
           in doc(buttonId \<mapsto> button)))"

text \<open>\<open>if (originalText)\<close> is true for a string that is neither \<open>null\<close> nor empty.\<close>

definition removeButtonSpinner ::
    "string \<Rightarrow> bool \<Rightarrow> (string \<rightharpoonup> button) \<Rightarrow> (string \<rightharpoonup> button)" where
  "removeButtonSpinner buttonId enable doc =
     (case doc buttonId of
        None \<Rightarrow> doc
      | Some button \<Rightarrow>
          (let originalText = data_original_text button;
               button = (case originalText of
                           Some t \<Rightarrow> (if t \<noteq> [] then button\<lparr>innerHTML := t\<rparr> else button)
                         | None \<Rightarrow> button);
               button = (if enable then button\<lparr>disabled := False\<rparr> else button)
           in doc(buttonId \<mapsto> button)))"

text \<open>A disabled button with no inner markup.\<close>

definition sample_button :: button where
  "sample_button = \<lparr>innerHTML = [], data_original_text = None, disabled = True\<rparr>"

section \<open>Filter selects (main script, \<open>initFormSubmissions\<close>)\<close>


definition unhex :: "char \<Rightarrow> nat option" where
  "unhex c =
     (let n = (of_char c :: nat)
      in if 48 \<le> n \<and> n \<le> 57 then Some (n - 48)
         else if 65 \<le> n \<and> n \<le> 70 then Some (n - 55)
         else if 97 \<le> n \<and> n \<le> 102 then Some (n - 87)
         else None)"







fun percent_decode :: "string \<Rightarrow> string" where
  "percent_decode (c # a # b # rest) =
     (if c = CHR ''%'' then
        (case (unhex a, unhex b) of
           (Some h, Some l) \<Rightarrow> char_of (h * 16 + l) # percent_decode rest
         | _ \<Rightarrow> c # percent_decode (a # b # rest))
      else c # percent_decode (a # b # rest))"
| "percent_decode (c # rest) = c # percent_decode rest"
| "percent_decode [] = []"








section \<open>The document tree\<close>

text \<open>
  The handlers of the main script read and change the page through the DOM. The page is a
  tree of element and text nodes. An element carries what those handlers look at: its tag
  name, its class list (\<open>classList\<close>, an ordered set of tokens), its \<open>data-action\<close>
  attribute and the \<open>display\<close> property of its inline style. A reference to a node is the
  path from the root: the list of child indices.
\<close>

type_synonym path = "nat list"

record attrs =
  tagName :: string
  classList :: "string list"
  data_action :: "string option"
  style_display :: string

datatype node = Text string | Element attrs "node list"

fun get_node :: "node \<Rightarrow> path \<Rightarrow> node option" where
  "get_node n [] = Some n"
| "get_node (Text s) (i # p) = None"
| "get_node (Element a cs) (i # p) = (if i < length cs then get_node (cs ! i) p else None)"

definition elem_attrs :: "node \<Rightarrow> path \<Rightarrow> attrs option" where
  "elem_attrs d p = (case get_node d p of Some (Element a cs) \<Rightarrow> Some a | _ \<Rightarrow> None)"

text \<open>\<open>update_node f p d\<close> replaces the node at \<open>p\<close> by its image under \<open>f\<close>; a path that
  leads nowhere changes nothing.\<close>

fun update_node :: "(node \<Rightarrow> node) \<Rightarrow> path \<Rightarrow> node \<Rightarrow> node" where
  "update_node f [] n = f n"
| "update_node f (i # p) (Text s) = Text s"
| "update_node f (i # p) (Element a cs) =
     (if i < length cs then Element a (cs[i := update_node f p (cs ! i)]) else Element a cs)"

fun map_attrs :: "(attrs \<Rightarrow> attrs) \<Rightarrow> node \<Rightarrow> node" where
  "map_attrs g (Element a cs) = Element (g a) cs"
| "map_attrs g (Text s) = Text s"

fun set_children :: "node list \<Rightarrow> node \<Rightarrow> node" where
  "set_children ks (Element a cs) = Element a ks"
| "set_children ks (Text s) = Text s"

fun insert_child :: "nat \<Rightarrow> node \<Rightarrow> node \<Rightarrow> node" where
  "insert_child j x (Element a cs) = Element a (take j cs @ x # drop j cs)"
| "insert_child j x (Text s) = Text s"

subsection \<open>Selectors\<close>

text \<open>The selectors of the source are class names, tag names and comma-separated lists of
  them (\<open>'.post, .comment'\<close>).\<close>

datatype simple_selector = Cls string | Tag string

type_synonym selector = "simple_selector list"

fun matches_simple :: "attrs \<Rightarrow> simple_selector \<Rightarrow> bool" where
  "matches_simple a (Cls c) = (c \<in> set (classList a))"
| "matches_simple a (Tag t) = (tagName a = t)"

definition matches :: "selector \<Rightarrow> attrs \<Rightarrow> bool" where
  "matches sel a = list_ex (matches_simple a) sel"

definition el_matches :: "selector \<Rightarrow> node \<Rightarrow> path \<Rightarrow> bool" where
  "el_matches sel d p = (case elem_attrs d p of Some a \<Rightarrow> matches sel a | None \<Rightarrow> False)"

text \<open>\<open>el.closest(sel)\<close>: the element itself or its nearest ancestor that matches.\<close>

definition closest :: "selector \<Rightarrow> node \<Rightarrow> path \<Rightarrow> path option" where
  "closest sel d p = find (el_matches sel d) (rev (prefixes p))"

text \<open>The descendant elements of a node in document order, each with its path from that
  node and its attributes.\<close>

fun descendants :: "node \<Rightarrow> (path \<times> attrs) list"
  and descendants_list :: "nat \<Rightarrow> node list \<Rightarrow> (path \<times> attrs) list" where
  "descendants (Text s) = []"
| "descendants (Element a cs) = descendants_list 0 cs"
| "descendants_list i [] = []"
| "descendants_list i (c # cs) =
     (case c of Text s \<Rightarrow> [] | Element a ks \<Rightarrow> [([i], a)])
     @ map (\<lambda>(p, b). (i # p, b)) (descendants c)
     @ descendants_list (Suc i) cs"

text \<open>\<open>el.querySelector(sel)\<close>: the first descendant element, in document order, that
  matches.\<close>

definition first_match :: "selector \<Rightarrow> node \<Rightarrow> path option" where
  "first_match sel n = map_option fst (find (\<lambda>(q, a). matches sel a) (descendants n))"

definition querySelector :: "selector \<Rightarrow> node \<Rightarrow> path \<Rightarrow> path option" where
  "querySelector sel d p =
     (case get_node d p of
        Some n \<Rightarrow> map_option (\<lambda>q. p @ q) (first_match sel n)
      | None \<Rightarrow> None)"

text \<open>How many descendant elements of the node at \<open>p\<close> match.\<close>

definition count_matches :: "selector \<Rightarrow> node \<Rightarrow> path \<Rightarrow> nat" where
  "count_matches sel d p =
     (case get_node d p of
        Some n \<Rightarrow> length (filter (\<lambda>(q, a). matches sel a) (descendants n))
      | None \<Rightarrow> 0)"

subsection \<open>Properties and methods of elements\<close>

definition class_add :: "string \<Rightarrow> attrs \<Rightarrow> attrs" where
  "class_add c a = a\<lparr>classList := (if c \<in> set (classList a) then classList a else classList a @ [c])\<rparr>"

definition class_remove :: "string \<Rightarrow> attrs \<Rightarrow> attrs" where
  "class_remove c a = a\<lparr>classList := removeAll c (classList a)\<rparr>"

definition class_toggle :: "string \<Rightarrow> attrs \<Rightarrow> attrs" where
  "class_toggle c a = (if c \<in> set (classList a) then class_remove c a else class_add c a)"

definition classList_contains :: "node \<Rightarrow> path \<Rightarrow> string \<Rightarrow> bool" where
  "classList_contains d p c = (case elem_attrs d p of Some a \<Rightarrow> c \<in> set (classList a) | None \<Rightarrow> False)"



definition classList_toggle :: "string \<Rightarrow> path \<Rightarrow> node \<Rightarrow> node" where
  "classList_toggle c p d = update_node (map_attrs (class_toggle c)) p d"

definition set_className :: "string list \<Rightarrow> path \<Rightarrow> node \<Rightarrow> node" where
  "set_className cs p d = update_node (map_attrs (\<lambda>a. a\<lparr>classList := cs\<rparr>)) p d"

definition dataset_action :: "node \<Rightarrow> path \<Rightarrow> string option" where
  "dataset_action d p = (case elem_attrs d p of Some a \<Rightarrow> data_action a | None \<Rightarrow> None)"

definition get_display :: "node \<Rightarrow> path \<Rightarrow> string" where
  "get_display d p = (case elem_attrs d p of Some a \<Rightarrow> style_display a | None \<Rightarrow> [])"

definition set_display :: "string \<Rightarrow> path \<Rightarrow> node \<Rightarrow> node" where
  "set_display v p d = update_node (map_attrs (\<lambda>a. a\<lparr>style_display := v\<rparr>)) p d"

fun text_of :: "node \<Rightarrow> string" where
  "text_of (Text s) = s"
| "text_of (Element a cs) = concat (map text_of cs)"

definition textContent :: "node \<Rightarrow> path \<Rightarrow> string" where
  "textContent d p = (case get_node d p of Some n \<Rightarrow> text_of n | None \<Rightarrow> [])"

text \<open>Assigning to \<open>textContent\<close> replaces the children by one text node, or by none for
  the empty string.\<close>

definition set_textContent :: "string \<Rightarrow> path \<Rightarrow> node \<Rightarrow> node" where
  "set_textContent s p d = update_node (set_children (if s = [] then [] else [Text s])) p d"

subsection \<open>Numbers read from and written to text\<close>

text \<open>
  \<open>parseInt(s)\<close> with no radix: leading white space is skipped, a sign is read, a \<open>0x\<close>
  or \<open>0X\<close> prefix selects base 16, and the longest run of digits is the value; with no
  digit the result is \<open>NaN\<close>, here \<open>None\<close>. Strings are strings of bytes, so white space
  is the ASCII white space. Integers stand for the JavaScript numbers that hold them
  exactly, which all integers of magnitude up to \<open>2^53\<close> are.
\<close>

definition is_space :: "char \<Rightarrow> bool" where
  "is_space c = ((of_char c :: nat) \<in> {9, 10, 11, 12, 13, 32})"

definition is_digit :: "char \<Rightarrow> bool" where
  "is_digit c = (48 \<le> (of_char c :: nat) \<and> (of_char c :: nat) \<le> 57)"

definition digit_value :: "char \<Rightarrow> nat" where
  "digit_value c = (case unhex c of Some k \<Rightarrow> k | None \<Rightarrow> 0)"

definition digits_value :: "nat \<Rightarrow> string \<Rightarrow> nat" where
  "digits_value radix ds = foldl (\<lambda>acc c. radix * acc + digit_value c) 0 ds"

definition parseInt :: "string \<Rightarrow> int option" where
  "parseInt s =
     (let s = dropWhile is_space s;
          (sign, s) = (case s of
                         c # r \<Rightarrow> if c = CHR ''-'' then (- 1, r)
                                  else if c = CHR ''+'' then (1, r) else (1, s)
                       | [] \<Rightarrow> (1, s));
          (radix, s) = (if take 2 s = ''0x'' \<or> take 2 s = ''0X'' then (16, drop 2 s) else (10, s));
          ds = takeWhile (\<lambda>c. if radix = 16 then unhex c \<noteq> None else is_digit c) s
      in if ds = [] then None else Some (sign * int (digits_value radix ds)))"

definition number_to_string :: "int option \<Rightarrow> string" where
  "number_to_string v = (case v of Some i \<Rightarrow> show_int i | None \<Rightarrow> ''NaN'')"

definition add_number :: "int option \<Rightarrow> int \<Rightarrow> int option" where
  "add_number v k = map_option (\<lambda>i. i + k) v"

section \<open>Vote buttons (main script, \<open>initVoteButtons\<close>)\<close>





section \<open>Text expansion (main script, \<open>initExpandTextButtons\<close>)\<close>

text \<open>The \<open>click\<close> handler of an \<open>.expand-button\<close>.\<close>

definition expand_click :: "node \<Rightarrow> path \<Rightarrow> node" where
  "expand_click d this =
     (case closest [Cls ''post''] d this of
        None \<Rightarrow> d
      | Some parentEl \<Rightarrow>
          (case querySelector [Cls ''post-text''] d parentEl of
             None \<Rightarrow> d
           | Some textEl \<Rightarrow>
               (let fadeEl = querySelector [Cls ''post-text-fade''] d parentEl;
                    d = classList_toggle ''expanded'' textEl d
                in if classList_contains d textEl ''expanded'' then
                     (let d = set_textContent ''Show less'' this d
                      in (case fadeEl of Some f \<Rightarrow> set_display ''none'' f d | None \<Rightarrow> d))
                   else
                     (let d = set_textContent ''Read more'' this d
                      in (case fadeEl of Some f \<Rightarrow> set_display ''block'' f d | None \<Rightarrow> d)))))"

text \<open>
  An expandable post: the expand button \<open>this\<close> is an element inside the post \<open>c\<close>, whose
  first \<open>.post-text\<close> descendant is \<open>t\<close> and whose first \<open>.post-text-fade\<close>
  descendant, if any, is \<open>fade\<close>; neither lies inside the button.
\<close>

definition expand_widget :: "node \<Rightarrow> path \<Rightarrow> path \<Rightarrow> path \<Rightarrow> path option \<Rightarrow> bool" where
  "expand_widget d c this t fade =
     (elem_attrs d this \<noteq> None
      \<and> closest [Cls ''post''] d this = Some c
      \<and> querySelector [Cls ''post-text''] d c = Some t
      \<and> querySelector [Cls ''post-text-fade''] d c = fade
      \<and> \<not> strict_prefix this t
      \<and> (case fade of Some f \<Rightarrow> \<not> strict_prefix this f | None \<Rightarrow> True))"

section \<open>Post and comment actions (main script)\<close>

text \<open>
  Reading a property of \<open>null\<close> raises a \<open>TypeError\<close>; inserting a second element child
  into the document raises a \<open>HierarchyRequestError\<close>. Scrolling, focusing, the clipboard,
  alerts and log lines do not change the tree and are left out.
\<close>

datatype error = TypeError | HierarchyRequestError

text \<open>The \<open>click\<close> handler of a \<open>.post-action\<close> (\<open>initPostActions\<close>). The post id is read
  from \<open>this.closest('.post').dataset.id\<close> before the action is looked at.\<close>

definition post_action_click :: "node \<Rightarrow> path \<Rightarrow> error + node" where
  "post_action_click d this =
     (let actionType = dataset_action d this
      in case closest [Cls ''post''] d this of
           None \<Rightarrow> Inl TypeError
         | Some post \<Rightarrow>
             (if actionType = Some ''comment'' then Inr d
              else if actionType = Some ''share'' then Inr d
              else if actionType = Some ''save'' then
                (let d = classList_toggle ''saved'' this d;
                     isSaved = classList_contains d this ''saved'';
                     icon = querySelector [Tag ''i''] d this;
                     text = querySelector [Tag ''span''] d this
                 in if isSaved then
                      (let d = (case icon of Some i \<Rightarrow> set_className [''fas'', ''fa-bookmark''] i d
                                | None \<Rightarrow> d);
                           d = (case text of Some t \<Rightarrow> set_textContent ''Saved'' t d | None \<Rightarrow> d)
                       in Inr d)
                    else
                      (let d = (case icon of Some i \<Rightarrow> set_className [''far'', ''fa-bookmark''] i d
                                | None \<Rightarrow> d);
                           d = (case text of Some t \<Rightarrow> set_textContent ''Save'' t d | None \<Rightarrow> d)
                       in Inr d))
              else Inr d))"

text \<open>The reply form the handler builds; the white space between the tags of its markup
  is kept as text nodes of one blank.\<close>

definition element :: "string \<Rightarrow> string list \<Rightarrow> node list \<Rightarrow> node" where
  "element t cs ks =
     Element \<lparr>tagName = t, classList = cs, data_action = None, style_display = []\<rparr> ks"

definition new_reply_form :: node where
  "new_reply_form =
     element ''div'' [''reply-form'', ''mt-2'']
       [Text '' '',
        element ''textarea'' [''form-control'', ''mb-2''] [],
        Text '' '',
        element ''div'' [''d-flex'']
          [Text '' '',
           element ''button'' [''btn'', ''btn-primary'', ''btn-sm''] [Text ''Reply''],
           Text '' '',
           element ''button'' [''btn'', ''btn-secondary'', ''btn-sm'', ''ml-2'', ''cancel-reply'']
             [Text ''Cancel''],
           Text '' ''],
        Text '' '']"

text \<open>\<open>el.after(x)\<close>: \<open>x\<close> becomes the next sibling of \<open>el\<close>. The root element has no
  room for a sibling.\<close>

definition insert_after :: "path \<Rightarrow> node \<Rightarrow> node \<Rightarrow> error + node" where
  "insert_after p x d =
     (if p = [] then Inl HierarchyRequestError
      else Inr (update_node (insert_child (Suc (last p)) x) (butlast p) d))"

text \<open>The \<open>click\<close> handler of a \<open>.comment-action\<close> (\<open>initCommentActions\<close>).\<close>

definition comment_action_click :: "node \<Rightarrow> path \<Rightarrow> error + node" where
  "comment_action_click d this =
     (let actionType = dataset_action d this
      in case closest [Cls ''comment''] d this of
           None \<Rightarrow> Inl TypeError
         | Some commentEl \<Rightarrow>
             (if actionType = Some ''reply'' then
                (case querySelector [Cls ''reply-form''] d commentEl of
                   Some replyForm \<Rightarrow>
                     (let isVisible = (get_display d replyForm \<noteq> ''none'')
                      in Inr (set_display (if isVisible then ''none'' else ''block'') replyForm d))
                 | None \<Rightarrow>
                     (case closest [Cls ''comment-actions''] d this of
                        None \<Rightarrow> Inl TypeError
                      | Some actionsEl \<Rightarrow> insert_after actionsEl new_reply_form d))
              else Inr d))"





section \<open>Auxiliary notions\<close>

text \<open>What a selector sees of a list of descendants: the path of each and whether it
  matches.\<close>

definition marks :: "selector \<Rightarrow> (path \<times> attrs) list \<Rightarrow> (path \<times> bool) list" where
  "marks sel xs = map (\<lambda>(q, a). (q, matches sel a)) xs"

definition shift :: "nat \<Rightarrow> (path \<times> 'a) list \<Rightarrow> (path \<times> 'a) list" where
  "shift i xs = map (\<lambda>(q, b). (i # q, b)) xs"

definition own :: "nat \<Rightarrow> node \<Rightarrow> (path \<times> attrs) list" where
  "own i c = (case c of Text s \<Rightarrow> [] | Element a ks \<Rightarrow> [([i], a)])"

section \<open>Sample pages\<close>

text \<open>A post with its vote buttons and counter, its text, the fade overlay and the expand
  button.\<close>

definition sample_post :: node where
  "sample_post =
     element ''div'' [''post'']
       [element ''button'' [''vote-button'', ''upvote''] [Text ''+''],
        element ''span'' [''vote-count''] [Text ''10''],
        element ''button'' [''vote-button'', ''downvote''] [Text ''-''],
        element ''div'' [''post-text''] [Text ''Long text''],
        element ''div'' [''post-text-fade''] [],
        element ''a'' [''expand-button''] [Text ''Read more'']]"

text \<open>A save link outside any post, a reply link outside any comment, and a reply link
  of a comment that has no \<open>.comment-actions\<close> wrapper.\<close>

definition action_link :: "string \<Rightarrow> string \<Rightarrow> string \<Rightarrow> node" where
  "action_link cls action label =
     Element \<lparr>tagName = ''a'', classList = [cls], data_action = Some action, style_display = []\<rparr>
       [Text label]"

definition stray_post_action :: node where
  "stray_post_action = element ''div'' [''toolbar''] [action_link ''post-action'' ''save'' ''Save'']"

definition stray_comment_action :: node where
  "stray_comment_action =
     element ''div'' [''toolbar''] [action_link ''comment-action'' ''reply'' ''Reply'']"

definition bare_comment :: node where
  "bare_comment = element ''div'' [''comment''] [action_link ''comment-action'' ''reply'' ''Reply'']"


section \<open>Theorems\<close>

text \<open>
  C4. For every score \<open>s\<close>, \<open>getSentimentClass\<close>, \<open>getSentimentText\<close> and the colour
  maps of the bar and scatter charts put \<open>s\<close> in the positive band exactly when
  \<open>s \<ge> 0.05\<close>, in the negative band exactly when \<open>s \<le> -0.05\<close>, and in the neutral band
  exactly when \<open>-0.05 < s < 0.05\<close>; so \<open>0.05\<close> is positive, \<open>-0.05\<close> negative and
  \<open>0.049\<close> neutral.
\<close>

theorem sentiment_bands:
  "(getSentimentClass s = ''sentiment-positive'') = (s \<ge> 0.05)
   \<and> (getSentimentClass s = ''sentiment-negative'') = (s \<le> - 0.05)
   \<and> (getSentimentClass s = ''sentiment-neutral'') = (- 0.05 < s \<and> s < 0.05)
   \<and> (getSentimentText s = ''Positive'') = (s \<ge> 0.05)
   \<and> (getSentimentText s = ''Negative'') = (s \<le> - 0.05)
   \<and> (getSentimentText s = ''Neutral'') = (- 0.05 < s \<and> s < 0.05)
   \<and> (entity_backgroundColor s = ''rgba(76, 175, 80, 0.6)'') = (s \<ge> 0.05)
   \<and> (entity_backgroundColor s = ''rgba(244, 67, 54, 0.6)'') = (s \<le> - 0.05)
   \<and> (entity_backgroundColor s = ''rgba(158, 158, 158, 0.6)'') = (- 0.05 < s \<and> s < 0.05)
   \<and> (entity_borderColor s = ''rgba(76, 175, 80, 1)'') = (s \<ge> 0.05)
   \<and> (entity_borderColor s = ''rgba(244, 67, 54, 1)'') = (s \<le> - 0.05)
   \<and> (entity_borderColor s = ''rgba(158, 158, 158, 1)'') = (- 0.05 < s \<and> s < 0.05)
   \<and> (timeline_pointColor s = ''rgba(76, 175, 80, 1)'') = (s \<ge> 0.05)
   \<and> (timeline_pointColor s = ''rgba(244, 67, 54, 1)'') = (s \<le> - 0.05)
   \<and> (timeline_pointColor s = ''rgba(158, 158, 158, 1)'') = (- 0.05 < s \<and> s < 0.05)
   \<and> (timeline_sentiment s = ''Positive'') = (s \<ge> 0.05)
   \<and> (timeline_sentiment s = ''Negative'') = (s \<le> - 0.05)
   \<and> (timeline_sentiment s = ''Neutral'') = (- 0.05 < s \<and> s < 0.05)
   \<and> getSentimentClass 0.05 = ''sentiment-positive'' \<and> getSentimentText 0.05 = ''Positive''
   \<and> getSentimentClass (- 0.05) = ''sentiment-negative'' \<and> getSentimentText (- 0.05) = ''Negative''
   \<and> getSentimentClass 0.049 = ''sentiment-neutral'' \<and> getSentimentText 0.049 = ''Neutral''"
  unfolding getSentimentClass_def getSentimentText_def entity_backgroundColor_def
    entity_borderColor_def timeline_pointColor_def timeline_sentiment_def
  by (cases "s \<ge> 0.05"; cases "s \<le> - 0.05"; simp)


subsection \<open>Decimal numerals and tooltips\<close>

lemma show_nat_small: "n < 10 \<Longrightarrow> show_nat n = [digit_char n]"
  by (subst show_nat.simps) simp

lemma show_nat_big: "\<not> n < 10 \<Longrightarrow> show_nat n = show_nat (n div 10) @ [digit_char (n mod 10)]"
  by (subst show_nat.simps) simp

lemma length_show_nat_pos: "0 < length (show_nat n)"
  by (subst show_nat.simps) simp




subsection \<open>Chart registry\<close>

lemma find_Some_bound:
  "find (\<lambda>inst. fst inst = c) xs = Some i \<Longrightarrow> i \<in> set xs \<and> fst i = c"
  by (induction xs) (auto split: if_splits)

lemma find_None_bound:
  "find (\<lambda>inst. fst inst = c) xs = None \<Longrightarrow> length (filter (\<lambda>inst. fst inst = c) xs) = 0"
  by (induction xs) (auto split: if_splits)

lemma length_filter_pos: "i \<in> set xs \<Longrightarrow> P i \<Longrightarrow> 0 < length (filter P xs)"
  by (simp add: filter_empty_conv) blast

lemma length_filter_remove1:
  "i \<in> set xs \<Longrightarrow>
   length (filter P (remove1 i xs)) = length (filter P xs) - (if P i then 1 else 0)"
proof (induction xs)
  case Nil
  then show ?case by simp
next
  case (Cons a xs)
  show ?case
  proof (cases "i = a")
    case True
    then show ?thesis by simp
  next
    case False
    with Cons.prems have mem: "i \<in> set xs" by simp
    from Cons.IH [OF mem] length_filter_pos [OF mem, of P] False show ?thesis
      by (cases "P i") auto
  qed
qed

lemma render_on_missing:
  "c \<notin> set (canvas_ids pg) \<Longrightarrow>
   render_on c cfg pg = pg\<lparr>console_error := console_error pg @ [''Canvas element '' @ c @ '' not found'']\<rparr>"
  by (simp add: render_on_def getElementById_canvas_def)

lemma render_on_calls:
  "c \<in> set (canvas_ids pg) \<Longrightarrow>
   calls (render_on c cfg pg) =
     calls pg @ [GetChart c] @ (if bound_to c pg = 0 then [] else [Destroy c]) @ [NewChart c cfg]"
proof (cases "find (\<lambda>inst. fst inst = c) (instances pg)")
  case None
  assume "c \<in> set (canvas_ids pg)"
  with None find_None_bound [OF None] show ?thesis
    by (simp add: render_on_def getElementById_canvas_def getChart_def new_Chart_def bound_to_def)
next
  case (Some i)
  assume c: "c \<in> set (canvas_ids pg)"
  from find_Some_bound [OF Some] have i: "i \<in> set (instances pg)" "fst i = c" by simp_all
  from i have pos: "0 < length (filter (\<lambda>inst. fst inst = c) (instances pg))"
    by (intro length_filter_pos [of i]) simp_all
  from c Some i pos show ?thesis
    by (simp add: render_on_def getElementById_canvas_def getChart_def destroy_def new_Chart_def
        bound_to_def)
qed

lemma render_on_bound:
  "c \<in> set (canvas_ids pg) \<Longrightarrow>
   bound_to c' (render_on c cfg pg) =
     (if c' = c then (if bound_to c pg = 0 then 1 else bound_to c pg) else bound_to c' pg)"
proof (cases "find (\<lambda>inst. fst inst = c) (instances pg)")
  case None
  assume "c \<in> set (canvas_ids pg)"
  with None find_None_bound [OF None] show ?thesis
    by (simp add: render_on_def getElementById_canvas_def getChart_def new_Chart_def bound_to_def)
next
  case (Some i)
  assume c: "c \<in> set (canvas_ids pg)"
  from find_Some_bound [OF Some] have i: "i \<in> set (instances pg)" "fst i = c" by simp_all
  from i have pos: "0 < length (filter (\<lambda>inst. fst inst = c) (instances pg))"
    by (intro length_filter_pos [of i]) simp_all
  from c Some i pos show ?thesis
    by (simp add: render_on_def getElementById_canvas_def getChart_def destroy_def new_Chart_def
        bound_to_def length_filter_remove1)
qed

lemma render_on_other:
  "c \<in> set (canvas_ids pg) \<Longrightarrow>
   console_error (render_on c cfg pg) = console_error pg \<and> canvas_ids (render_on c cfg pg) = canvas_ids pg"
  by (auto simp: render_on_def getElementById_canvas_def getChart_def destroy_def new_Chart_def
      Let_def split: option.splits)

lemma run_call_render_on: "run_call pg r = render_on (canvas_of r) (config_of r) pg"
  by (cases r)
    (simp_all add: createSentimentTrendChart_def createSentimentPieChart_def
      createEntitySentimentChart_def createCommentTimelineChart_def)

lemma run_call_invariant:
  "\<forall>c. bound_to c pg \<le> 1 \<Longrightarrow> \<forall>c. bound_to c (run_call pg r) \<le> 1"
proof (cases "canvas_of r \<in> set (canvas_ids pg)")
  case True
  assume "\<forall>c. bound_to c pg \<le> 1"
  with True show ?thesis
    by (simp add: run_call_render_on render_on_bound)
next
  case False
  assume "\<forall>c. bound_to c pg \<le> 1"
  with False show ?thesis
    by (simp add: run_call_render_on render_on_missing bound_to_def)
qed

lemma foldl_run_call_invariant:
  "\<forall>c. bound_to c pg \<le> 1 \<Longrightarrow> \<forall>c. bound_to c (foldl run_call pg rs) \<le> 1"
proof (induction rs arbitrary: pg)
  case Nil
  then show ?case by simp
next
  case (Cons r rs)
  from Cons.prems have "\<forall>c. bound_to c (run_call pg r) \<le> 1" by (rule run_call_invariant)
  then show ?case using Cons.IH by simp
qed

text \<open>
  C7. Each of the four render functions, when the canvas exists, asks the library for the
  chart bound to the canvas, destroys it if there is one, and only then constructs the new
  chart; so a page with at most one chart per canvas stays so after any sequence of render
  calls, and the canvas just rendered has exactly one. When the canvas does not exist the
  function logs one error and neither creates nor destroys anything.
\<close>

theorem render_at_most_one_chart:
  assumes "\<forall>c. bound_to c pg \<le> 1"
  shows "(\<forall>c. bound_to c (foldl run_call pg rs) \<le> 1)
       \<and> (canvas_of r \<in> set (canvas_ids pg) \<longrightarrow>
            calls (run_call pg r) =
              calls pg @ [GetChart (canvas_of r)]
                @ (if bound_to (canvas_of r) pg = 0 then [] else [Destroy (canvas_of r)])
                @ [NewChart (canvas_of r) (config_of r)]
            \<and> bound_to (canvas_of r) (run_call pg r) = 1
            \<and> console_error (run_call pg r) = console_error pg)
       \<and> (canvas_of r \<notin> set (canvas_ids pg) \<longrightarrow>
            instances (run_call pg r) = instances pg
            \<and> calls (run_call pg r) = calls pg
            \<and> console_error (run_call pg r) =
                console_error pg @ [''Canvas element '' @ canvas_of r @ '' not found''])"
proof -
  have a: "\<forall>c. bound_to c (foldl run_call pg rs) \<le> 1"
    using assms by (rule foldl_run_call_invariant)
  have b: "bound_to (canvas_of r) pg \<le> 1" using assms by simp
  show ?thesis
    using a b
    by (auto simp: run_call_render_on render_on_calls render_on_bound render_on_other render_on_missing)
qed

theorem render_at_most_one_chart_witness:
  "(\<forall>c. bound_to c sample_page \<le> 1)
   \<and> bound_to ''pie-chart'' (foldl run_call sample_page
        [Pie ''pie-chart'' 50 30 20, Trend ''missing'' [] [] [] [], Pie ''pie-chart'' 10 10 80]) = 1
   \<and> calls (run_call sample_page (Pie ''pie-chart'' 50 30 20)) =
        [GetChart ''pie-chart'', NewChart ''pie-chart'' (DoughnutConfig 50 30 20)]
   \<and> instances (run_call sample_page (Trend ''missing'' [] [] [] [])) = []"
proof -
  have h: "\<forall>c. bound_to c sample_page \<le> 1" by (simp add: bound_to_def sample_page_def)
  have e: "bound_to ''pie-chart'' (foldl run_call sample_page
        [Pie ''pie-chart'' 50 30 20, Trend ''missing'' [] [] [] [], Pie ''pie-chart'' 10 10 80]) = 1"
    by code_simp
  show ?thesis
    using h e render_at_most_one_chart [OF h, of "[]" "Pie ''pie-chart'' 50 30 20"]
      render_at_most_one_chart [OF h, of "[]" "Trend ''missing'' [] [] [] []"]
    by (simp add: sample_page_def bound_to_def)
qed


subsection \<open>Query parameters\<close>










lemma percent_decode_escape:
  "unhex a = Some h \<Longrightarrow> unhex b = Some l \<Longrightarrow>
   percent_decode (CHR ''%'' # a # b # s) = char_of (h * 16 + l) # percent_decode s"
  by simp










subsection \<open>Button spinner\<close>

text \<open>
  C10 as stated fails for a disabled button without inner markup: after
  \<open>addButtonSpinner\<close> and \<open>removeButtonSpinner\<close> it shows the spinner markup and is
  enabled.
\<close>

theorem button_spinner_not_restored:
  "map_option innerHTML
     ((removeButtonSpinner ''go'' True
         (addButtonSpinner ''go'' True [''go'' \<mapsto> sample_button])) ''go'')
     = Some spinner_markup
   \<and> spinner_markup \<noteq> innerHTML sample_button
   \<and> map_option disabled
     ((removeButtonSpinner ''go'' True
         (addButtonSpinner ''go'' True [''go'' \<mapsto> sample_button])) ''go'')
     = Some False
   \<and> disabled sample_button"
  by (simp add: removeButtonSpinner_def addButtonSpinner_def sample_button_def spinner_markup_def)

text \<open>
  C10, amended. For a button of the document whose inner markup is not empty,
  \<open>removeButtonSpinner\<close> after one \<open>addButtonSpinner\<close> restores the inner markup; the
  button is then enabled if \<open>enable\<close> is set (whatever it was before), and otherwise
  disabled if \<open>disable\<close> was set and as before if not; the \<open>data-original-text\<close> attribute
  stays. After two \<open>addButtonSpinner\<close> calls in a row, \<open>removeButtonSpinner\<close> leaves the
  spinner markup in the button.
\<close>

theorem button_spinner_round_trip:
  assumes "doc b = Some btn" and "innerHTML btn \<noteq> []"
  shows "removeButtonSpinner b enable (addButtonSpinner b disable doc) b =
           Some (btn\<lparr>data_original_text := Some (innerHTML btn),
                     disabled := (if enable then False else if disable then True else disabled btn)\<rparr>)
       \<and> map_option innerHTML
           (removeButtonSpinner b enable
              (addButtonSpinner b disable' (addButtonSpinner b disable doc)) b)
           = Some spinner_markup
       \<and> spinner_markup \<noteq> []"
  using assms
  by (simp add: removeButtonSpinner_def addButtonSpinner_def spinner_markup_def Let_def)

theorem button_spinner_round_trip_witness:
  "[''go'' \<mapsto> \<lparr>innerHTML = ''Analyze'', data_original_text = None, disabled = False\<rparr>] ''go''
      = Some \<lparr>innerHTML = ''Analyze'', data_original_text = None, disabled = False\<rparr>
   \<and> ''Analyze'' \<noteq> []
   \<and> removeButtonSpinner ''go'' True (addButtonSpinner ''go'' True
        [''go'' \<mapsto> \<lparr>innerHTML = ''Analyze'', data_original_text = None, disabled = False\<rparr>]) ''go''
      = Some \<lparr>innerHTML = ''Analyze'', data_original_text = Some ''Analyze'', disabled = False\<rparr>
   \<and> map_option innerHTML
        (removeButtonSpinner ''go'' True (addButtonSpinner ''go'' True (addButtonSpinner ''go'' True
          [''go'' \<mapsto> \<lparr>innerHTML = ''Analyze'', data_original_text = None, disabled = False\<rparr>])) ''go'')
      = Some spinner_markup"
  using button_spinner_round_trip
    [of "[''go'' \<mapsto> \<lparr>innerHTML = ''Analyze'', data_original_text = None, disabled = False\<rparr>]"
        "''go''" "\<lparr>innerHTML = ''Analyze'', data_original_text = None, disabled = False\<rparr>"
        True True True]
  by simp


section \<open>The document tree: lemmas\<close>

subsection \<open>Paths\<close>

lemma update_node_Nil: "update_node f [] = f"
  by (rule ext) simp

lemma get_node_append:
  "get_node d (p @ q) = (case get_node d p of Some n \<Rightarrow> get_node n q | None \<Rightarrow> None)"
proof (induction p arbitrary: d)
  case Nil
  then show ?case by simp
next
  case (Cons i p)
  then show ?case by (cases d) simp_all
qed

lemma get_update_prefix:
  "get_node (update_node f (c @ p) d) c = map_option (update_node f p) (get_node d c)"
proof (induction c arbitrary: d)
  case Nil
  then show ?case by simp
next
  case (Cons i c)
  then show ?case by (cases d) simp_all
qed

lemma get_update_same: "get_node (update_node f p d) p = map_option f (get_node d p)"
  using get_update_prefix [of f p "[]" d] by (simp add: update_node_Nil)

lemma elem_attrs_update_attrs:
  "elem_attrs (update_node (map_attrs g) p d) q =
     (if q = p then map_option g (elem_attrs d p) else elem_attrs d q)"
proof (induction p arbitrary: d q)
  case Nil
  then show ?case
    by (cases d; cases q) (simp_all add: elem_attrs_def)
next
  case (Cons i p)
  show ?case
  proof (cases d)
    case (Text s)
    then show ?thesis by (cases q) (simp_all add: elem_attrs_def)
  next
    case (Element a cs)
    show ?thesis
    proof (cases q)
      case Nil
      with Element show ?thesis by (simp add: elem_attrs_def)
    next
      case (Cons j q')
      with Element Cons.IH [of "cs ! i" q'] show ?thesis
        by (auto simp: elem_attrs_def nth_list_update)
    qed
  qed
qed

lemma elem_attrs_update_children:
  "\<not> strict_prefix p q \<Longrightarrow> elem_attrs (update_node (set_children ks) p d) q = elem_attrs d q"
proof (induction p arbitrary: d q)
  case Nil
  then show ?case
    by (cases d; cases q) (simp_all add: elem_attrs_def)
next
  case (Cons i p)
  show ?case
  proof (cases d)
    case (Text s)
    then show ?thesis by (cases q) (simp_all add: elem_attrs_def)
  next
    case (Element a cs)
    show ?thesis
    proof (cases q)
      case Nil
      with Element show ?thesis by (simp add: elem_attrs_def)
    next
      case q: (Cons j q')
      show ?thesis
      proof (cases "j = i")
        case True
        with q Cons.prems have "\<not> strict_prefix p q'" by simp
        from Cons.IH [OF this, of "cs ! i"] True q Element show ?thesis
          by (simp add: elem_attrs_def)
      next
        case False
        with q Element show ?thesis by (simp add: elem_attrs_def)
      qed
    qed
  qed
qed

lemma textContent_set_textContent:
  "elem_attrs d p \<noteq> None \<Longrightarrow> textContent (set_textContent s p d) p = s"
  by (auto simp: textContent_def set_textContent_def get_update_same elem_attrs_def
      split: option.splits node.splits)

subsection \<open>Descendants\<close>

lemma descendants_list_Cons:
  "descendants_list i (c # cs) = own i c @ shift i (descendants c) @ descendants_list (Suc i) cs"
  by (simp add: own_def shift_def)

lemma descendants_list_append:
  "descendants_list k (xs @ ys) = descendants_list k xs @ descendants_list (k + length xs) ys"
  by (induction xs arbitrary: k) simp_all

lemma descendants_list_nth:
  assumes "i < length cs"
  shows "descendants_list k cs =
           descendants_list k (take i cs) @ own (k + i) (cs ! i) @ shift (k + i) (descendants (cs ! i))
           @ descendants_list (Suc (k + i)) (drop (Suc i) cs)"
proof -
  have "cs = take i cs @ cs ! i # drop (Suc i) cs"
    using assms by (simp add: id_take_nth_drop)
  then have "descendants_list k cs = descendants_list k (take i cs @ cs ! i # drop (Suc i) cs)"
    by simp
  also have "\<dots> = descendants_list k (take i cs)
      @ descendants_list (k + i) (cs ! i # drop (Suc i) cs)"
    using assms by (simp add: descendants_list_append)
  finally show ?thesis
    by (simp only: descendants_list_Cons append_assoc)
qed

lemma descendants_list_update:
  assumes "i < length cs"
  shows "descendants_list k (cs[i := c]) =
           descendants_list k (take i cs) @ own (k + i) c @ shift (k + i) (descendants c)
           @ descendants_list (Suc (k + i)) (drop (Suc i) cs)"
  using descendants_list_nth [of i "cs[i := c]" k] assms by simp

lemma descendants_list_range:
  "(q, a) \<in> set (descendants_list k cs) \<Longrightarrow> \<exists>j q'. q = j # q' \<and> k \<le> j \<and> j < k + length cs"
proof (induction cs arbitrary: k)
  case Nil
  then show ?case by simp
next
  case (Cons c cs)
  from Cons.prems
  have "(q, a) \<in> set (own k c @ shift k (descendants c) @ descendants_list (Suc k) cs)"
    by (simp only: descendants_list_Cons)
  then consider
      "(q, a) \<in> set (own k c)" | "(q, a) \<in> set (shift k (descendants c))"
    | "(q, a) \<in> set (descendants_list (Suc k) cs)"
    by (simp only: set_append Un_iff) blast
  then show ?case
  proof cases
    case 1
    then show ?thesis by (auto simp: own_def split: node.splits)
  next
    case 2
    then show ?thesis by (auto simp: shift_def)
  next
    case 3
    from Cons.IH [OF this] show ?thesis by auto
  qed
qed

lemma descendants_nonempty: "(q, a) \<in> set (descendants n) \<Longrightarrow> q \<noteq> []"
  by (cases n) (auto dest: descendants_list_range)


subsection \<open>What a selector sees\<close>

lemma marks_append: "marks sel (xs @ ys) = marks sel xs @ marks sel ys"
  by (simp add: marks_def)

lemma marks_shift: "marks sel (shift i xs) = shift i (marks sel xs)"
  by (induction xs) (auto simp: marks_def shift_def)

lemma shift_filter:
  "shift i (filter (\<lambda>(q, b). \<not> strict_prefix p q) xs) =
   filter (\<lambda>(q, b). \<not> strict_prefix (i # p) q) (shift i xs)"
  by (induction xs) (auto simp: shift_def)

lemma first_match_marks:
  "first_match sel n = map_option fst (find snd (marks sel (descendants n)))"
proof -
  have "map_option fst (find (\<lambda>(q, a). matches sel a) xs) = map_option fst (find snd (marks sel xs))"
    for xs :: "(path \<times> attrs) list"
    by (induction xs) (auto simp: marks_def)
  then show ?thesis by (simp add: first_match_def)
qed


lemma own_update_deeper: "own i (update_node f (j # p) c) = own i c"
  by (cases c) (simp_all add: own_def)

lemma own_set_children: "own i (set_children ks c) = own i c"
  by (cases c) (simp_all add: own_def)

lemma marks_own_map_attrs:
  "(\<And>a. matches sel (g a) = matches sel a) \<Longrightarrow> marks sel (own i (map_attrs g c)) = marks sel (own i c)"
  by (cases c) (simp_all add: own_def marks_def)

lemma descendants_map_attrs: "descendants (map_attrs g n) = descendants n"
  by (cases n) simp_all

lemma marks_update_attrs:
  assumes g: "\<And>a. matches sel (g a) = matches sel a"
  shows "marks sel (descendants (update_node (map_attrs g) p n)) = marks sel (descendants n)"
proof (induction p arbitrary: n)
  case Nil
  then show ?case by (simp add: descendants_map_attrs)
next
  case (Cons i p)
  show ?case
  proof (cases n)
    case (Text s)
    then show ?thesis by simp
  next
    case (Element a cs)
    show ?thesis
    proof (cases "i < length cs")
      case False
      with Element show ?thesis by simp
    next
      case True
      let ?c = "update_node (map_attrs g) p (cs ! i)"
      have o: "marks sel (own i ?c) = marks sel (own i (cs ! i))"
      proof (cases p)
        case Nil
        then show ?thesis using g by (simp add: marks_own_map_attrs)
      next
        case (Cons j p')
        then show ?thesis by (simp only: own_update_deeper)
      qed
      have "marks sel (descendants_list 0 (cs[i := ?c])) = marks sel (descendants_list 0 cs)"
        using o Cons.IH [of "cs ! i"]
        by (simp only: descendants_list_update [OF True] descendants_list_nth [OF True, of 0]
            marks_append marks_shift add_0)
      with True Element show ?thesis by simp
    qed
  qed
qed

lemma filter_descendants_list_other:
  assumes "\<And>j. k \<le> j \<Longrightarrow> j < k + length cs \<Longrightarrow> j \<noteq> i"
  shows "filter (\<lambda>(q, b). \<not> strict_prefix (i # p) q) (descendants_list k cs) = descendants_list k cs"
proof -
  have "\<not> strict_prefix (i # p) q" if "(q, a) \<in> set (descendants_list k cs)" for q a
  proof -
    from descendants_list_range [OF that] obtain j q' where
      "q = j # q'" "k \<le> j" "j < k + length cs" by blast
    with assms [of j] show ?thesis by simp
  qed
  then show ?thesis by (auto simp: filter_id_conv)
qed

lemma descendants_update_children:
  assumes ks: "descendants_list 0 ks = []"
  shows "descendants (update_node (set_children ks) p n) =
           filter (\<lambda>(q, a). \<not> strict_prefix p q) (descendants n)"
proof (induction p arbitrary: n)
  case Nil
  have "filter (\<lambda>(q, a). \<not> strict_prefix [] q) (descendants n) = []"
    by (auto simp: filter_empty_conv strict_prefix_def dest: descendants_nonempty)
  with ks show ?case by (cases n) simp_all
next
  case (Cons i p)
  show ?case
  proof (cases n)
    case (Text s)
    then show ?thesis by simp
  next
    case (Element a cs)
    show ?thesis
    proof (cases "i < length cs")
      case False
      then have "filter (\<lambda>(q, b). \<not> strict_prefix (i # p) q) (descendants_list 0 cs) = descendants_list 0 cs"
        by (intro filter_descendants_list_other) simp
      with False Element show ?thesis by simp
    next
      case True
      let ?c = "update_node (set_children ks) p (cs ! i)"
      let ?F = "filter (\<lambda>(q, b). \<not> strict_prefix (i # p) q)"
      have o: "own i ?c = own i (cs ! i)"
        by (cases p) (simp_all add: own_set_children own_update_deeper)
      have fo: "?F (own i (cs ! i)) = own i (cs ! i)"
        by (cases "cs ! i") (simp_all add: own_def)
      have fa: "?F (descendants_list 0 (take i cs)) = descendants_list 0 (take i cs)"
        using True by (intro filter_descendants_list_other) simp
      have fc: "?F (descendants_list (Suc i) (drop (Suc i) cs)) = descendants_list (Suc i) (drop (Suc i) cs)"
        by (intro filter_descendants_list_other) simp
      have fs: "?F (shift i (descendants (cs ! i))) = shift i (descendants ?c)"
        using Cons.IH [of "cs ! i"] by (simp only: shift_filter [symmetric])
      have "descendants_list 0 (cs[i := ?c]) = ?F (descendants_list 0 cs)"
        by (simp only: descendants_list_update [OF True] descendants_list_nth [OF True, of 0]
            filter_append add_0 o fo fa fc fs)
      with True Element show ?thesis by simp
    qed
  qed
qed

lemma find_SomeD: "find P xs = Some x \<Longrightarrow> x \<in> set xs \<and> P x"
  by (induction xs) (auto split: if_splits)

lemma find_filter_Some: "find P xs = Some x \<Longrightarrow> Q x \<Longrightarrow> find P (filter Q xs) = Some x"
  by (induction xs) (auto split: if_splits)

lemma find_filter_None: "find P xs = None \<Longrightarrow> find P (filter Q xs) = None"
  by (induction xs) (auto split: if_splits)

lemma first_match_update_attrs:
  "(\<And>a. matches sel (g a) = matches sel a) \<Longrightarrow>
   first_match sel (update_node (map_attrs g) p n) = first_match sel n"
  by (simp only: first_match_marks marks_update_attrs)

lemma first_match_update_children:
  assumes "descendants_list 0 ks = []"
      and "first_match sel n = Some r" and "\<not> strict_prefix p r"
  shows "first_match sel (update_node (set_children ks) p n) = Some r"
proof -
  from assms(2) obtain a where
    f: "find (\<lambda>(q, a). matches sel a) (descendants n) = Some (r, a)"
    by (auto simp: first_match_def)
  from find_filter_Some [OF f, of "\<lambda>(q, a). \<not> strict_prefix p q"] assms(3)
  show ?thesis
    by (simp add: first_match_def descendants_update_children [OF assms(1)])
qed

lemma first_match_update_children_None:
  assumes "descendants_list 0 ks = []" and "first_match sel n = None"
  shows "first_match sel (update_node (set_children ks) p n) = None"
  using assms(2) find_filter_None [of "\<lambda>(q, a). matches sel a" "descendants n"]
  by (simp add: first_match_def descendants_update_children [OF assms(1)])


subsection \<open>Lookups\<close>

lemma descendants_sound:
  "(q, a) \<in> set (descendants n) \<Longrightarrow> elem_attrs n q = Some a"
  "(q, a) \<in> set (descendants_list k cs) \<Longrightarrow>
     \<exists>j q'. q = (k + j) # q' \<and> j < length cs \<and> elem_attrs (cs ! j) q' = Some a"
proof (induction n and k cs arbitrary: q a and q a rule: descendants_descendants_list.induct)
  case (1 s)
  then show ?case by simp
next
  case (2 b cs)
  from "2.prems" have "(q, a) \<in> set (descendants_list 0 cs)" by simp
  from "2.IH" [OF this] show ?case by (auto simp: elem_attrs_def)
next
  case (3 i)
  then show ?case by simp
next
  case (4 i c cs)
  from "4.prems"
  have "(q, a) \<in> set (own i c @ shift i (descendants c) @ descendants_list (Suc i) cs)"
    by (simp only: descendants_list_Cons)
  then consider
      "(q, a) \<in> set (own i c)" | "(q, a) \<in> set (shift i (descendants c))"
    | "(q, a) \<in> set (descendants_list (Suc i) cs)"
    by (simp only: set_append Un_iff) blast
  then show ?case
  proof cases
    case 1
    then have "q = (i + 0) # [] \<and> 0 < length (c # cs) \<and> elem_attrs ((c # cs) ! 0) [] = Some a"
      by (auto simp: own_def elem_attrs_def split: node.splits)
    then show ?thesis by blast
  next
    case 2
    then obtain q0 where q0: "q = i # q0" "(q0, a) \<in> set (descendants c)"
      by (auto simp: shift_def)
    from "4.IH"(1) [OF q0(2)] q0(1)
    have "q = (i + 0) # q0 \<and> 0 < length (c # cs) \<and> elem_attrs ((c # cs) ! 0) q0 = Some a"
      by simp
    then show ?thesis by blast
  next
    case 3
    from "4.IH"(2) [OF this] obtain j q' where
      "q = (Suc i + j) # q'" "j < length cs" "elem_attrs (cs ! j) q' = Some a" by blast
    then have "q = (i + Suc j) # q' \<and> Suc j < length (c # cs) \<and> elem_attrs ((c # cs) ! Suc j) q' = Some a"
      by simp
    then show ?thesis by blast
  qed
qed

lemma elem_attrs_append:
  "get_node d c = Some n \<Longrightarrow> elem_attrs d (c @ q) = elem_attrs n q"
  by (simp add: elem_attrs_def get_node_append)

lemma first_match_Some:
  assumes "first_match sel n = Some r"
  shows "r \<noteq> [] \<and> (\<exists>a. elem_attrs n r = Some a \<and> matches sel a)"
proof -
  from assms obtain a where f: "find (\<lambda>(q, a). matches sel a) (descendants n) = Some (r, a)"
    by (auto simp: first_match_def)
  from find_SomeD [OF f] have "(r, a) \<in> set (descendants n)" "matches sel a"
    by simp_all
  with descendants_nonempty [of r a n] descendants_sound(1) [of r a n] show ?thesis by blast
qed

lemma querySelector_Some:
  assumes "querySelector sel d c = Some r"
  shows "\<exists>r' a. r = c @ r' \<and> r' \<noteq> [] \<and> elem_attrs d r = Some a \<and> matches sel a"
proof -
  from assms obtain n r' where n: "get_node d c = Some n" "first_match sel n = Some r'" "r = c @ r'"
    by (auto simp: querySelector_def split: option.splits)
  from first_match_Some [OF n(2)] n(1) n(3) show ?thesis
    by (auto simp: elem_attrs_append)
qed

lemma closest_Some: "closest sel d p = Some c \<Longrightarrow> prefix c p \<and> el_matches sel d c"
  by (auto simp: closest_def dest!: find_SomeD)

lemma closest_cong:
  assumes "\<And>r. prefix r p \<Longrightarrow> el_matches sel d' r = el_matches sel d r"
  shows "closest sel d' p = closest sel d p"
  unfolding closest_def using assms by (intro find_cong) simp_all

lemma closest_update_attrs:
  assumes "\<And>a. matches sel (g a) = matches sel a"
  shows "closest sel (update_node (map_attrs g) q d) p = closest sel d p"
  by (rule closest_cong)
    (auto simp: el_matches_def elem_attrs_update_attrs assms split: option.splits)

lemma closest_update_children:
  assumes "\<not> strict_prefix q p"
  shows "closest sel (update_node (set_children ks) q d) p = closest sel d p"
proof (rule closest_cong)
  fix r assume "prefix r p"
  with assms have "\<not> strict_prefix q r"
    by (auto simp: strict_prefix_def dest: prefix_order.trans)
  then show "el_matches sel (update_node (set_children ks) q d) r = el_matches sel d r"
    by (simp add: el_matches_def elem_attrs_update_children)
qed

lemma get_update_attrs:
  "get_node (update_node (map_attrs g) p d) c =
     (if prefix c p then map_option (update_node (map_attrs g) (drop (length c) p)) (get_node d c)
      else get_node d c)"
proof (induction p arbitrary: d c)
  case Nil
  then show ?case by (cases d; cases c) simp_all
next
  case (Cons i p)
  show ?case
  proof (cases d)
    case (Text s)
    then show ?thesis by (cases c) simp_all
  next
    case (Element a cs)
    show ?thesis
    proof (cases c)
      case Nil
      then show ?thesis by simp
    next
      case c: (Cons j c')
      with Element Cons.IH [of "cs ! i" c'] show ?thesis
        by (auto simp: nth_list_update)
    qed
  qed
qed

lemma querySelector_update_attrs:
  assumes "\<And>a. matches sel (g a) = matches sel a"
  shows "querySelector sel (update_node (map_attrs g) p d) c = querySelector sel d c"
  by (auto simp: querySelector_def get_update_attrs first_match_update_attrs [OF assms]
      split: option.splits)

lemma querySelector_update_children:
  assumes ks: "descendants_list 0 ks = []"
      and qs: "querySelector sel d c = Some r"
      and pre: "prefix c p" and np: "\<not> strict_prefix p r"
  shows "querySelector sel (update_node (set_children ks) p d) c = Some r"
proof -
  from pre obtain p' where p: "p = c @ p'" by (auto simp: prefix_def)
  from qs obtain n r' where n: "get_node d c = Some n" "first_match sel n = Some r'" "r = c @ r'"
    by (auto simp: querySelector_def split: option.splits)
  from np p n(3) have "\<not> strict_prefix p' r'" by (simp add: strict_prefix_def)
  from first_match_update_children [OF ks n(2) this] n(1) n(3) p show ?thesis
    by (simp add: querySelector_def get_update_prefix)
qed

lemma querySelector_update_children_None:
  assumes ks: "descendants_list 0 ks = []"
      and qs: "querySelector sel d c = None" and pre: "prefix c p"
  shows "querySelector sel (update_node (set_children ks) p d) c = None"
proof -
  from pre obtain p' where p: "p = c @ p'" by (auto simp: prefix_def)
  show ?thesis
  proof (cases "get_node d c")
    case None
    with p show ?thesis by (simp add: querySelector_def get_update_prefix)
  next
    case (Some n)
    with qs have "first_match sel n = None" by (simp add: querySelector_def)
    from first_match_update_children_None [OF ks this] Some p show ?thesis
      by (simp add: querySelector_def get_update_prefix)
  qed
qed


subsection \<open>Numbers and text\<close>

lemma digit_char_props:
  assumes "k < 10"
  shows "is_digit (digit_char k)" "digit_value (digit_char k) = k"
    "\<not> is_space (digit_char k)" "digit_char k \<noteq> CHR ''-''" "digit_char k \<noteq> CHR ''+''"
    "digit_char k \<noteq> CHR ''x''" "digit_char k \<noteq> CHR ''X''"
proof -
  from assms have "k \<in> {0,1,2,3,4,5,6,7,8,9}" by simp arith
  then show "is_digit (digit_char k)" "digit_value (digit_char k) = k"
    "\<not> is_space (digit_char k)" "digit_char k \<noteq> CHR ''-''" "digit_char k \<noteq> CHR ''+''"
    "digit_char k \<noteq> CHR ''x''" "digit_char k \<noteq> CHR ''X''"
    by (auto simp: digit_char_def is_digit_def digit_value_def unhex_def is_space_def)
qed

lemma show_nat_digits: "\<forall>c \<in> set (show_nat n). is_digit c"
proof (induction n rule: show_nat.induct)
  case (1 n)
  show ?case
  proof (cases "n < 10")
    case True
    then show ?thesis by (simp add: show_nat_small digit_char_props)
  next
    case False
    have "n mod 10 < 10" by simp
    with False 1 show ?thesis by (simp add: show_nat_big digit_char_props)
  qed
qed

lemma digits_value_snoc: "digits_value r (ds @ [c]) = r * digits_value r ds + digit_value c"
  by (simp add: digits_value_def)

lemma digits_value_show_nat: "digits_value 10 (show_nat n) = n"
proof (induction n rule: show_nat.induct)
  case (1 n)
  show ?case
  proof (cases "n < 10")
    case True
    then show ?thesis by (simp add: show_nat_small digit_char_props digits_value_def)
  next
    case False
    have "n mod 10 < 10" by simp
    with False 1 show ?thesis
      by (simp add: show_nat_big digits_value_snoc digit_char_props)
  qed
qed

lemma show_nat_Cons: "\<exists>c cs. show_nat n = c # cs \<and> is_digit c"
  using length_show_nat_pos [of n] show_nat_digits [of n] by (cases "show_nat n") auto

lemma is_digit_plain:
  "is_digit c \<Longrightarrow> \<not> is_space c \<and> c \<noteq> CHR ''-'' \<and> c \<noteq> CHR ''+'' \<and> c \<noteq> CHR ''x'' \<and> c \<noteq> CHR ''X''"
  by (auto simp: is_digit_def is_space_def)

lemma parseInt_digits:
  assumes "ds \<noteq> []" and "\<forall>c \<in> set ds. is_digit c"
  shows "parseInt ds = Some (int (digits_value 10 ds))"
    and "parseInt (CHR ''-'' # ds) = Some (- int (digits_value 10 ds))"
proof -
  from assms obtain c cs where ds: "ds = c # cs" "is_digit c" by (cases ds) auto
  have sp: "dropWhile is_space ds = ds" using ds is_digit_plain by simp
  have sg: "(case ds of
               c # r \<Rightarrow> if c = CHR ''-'' then (- 1, r) else if c = CHR ''+'' then (1, r) else (1, ds)
             | [] \<Rightarrow> (1, ds)) = (1::int, ds)"
    using ds is_digit_plain by auto
  have hx: "\<not> (take 2 ds = ''0x'' \<or> take 2 ds = ''0X'')"
    using assms(2) ds is_digit_plain by (cases cs) auto
  have tw: "takeWhile is_digit ds = ds" using assms(2) by (simp add: takeWhile_eq_all_conv)
  have rest: "(let (radix, s) = (if take 2 ds = ''0x'' \<or> take 2 ds = ''0X'' then (16, drop 2 ds) else (10::nat, ds));
          ds' = takeWhile (\<lambda>c. if radix = 16 then unhex c \<noteq> None else is_digit c) s
      in if ds' = [] then None else Some (sign * int (digits_value radix ds')))
      = Some (sign * int (digits_value 10 ds))" for sign :: int
    using hx assms(1) by (simp add: Let_def tw)
  show "parseInt ds = Some (int (digits_value 10 ds))"
    unfolding parseInt_def Let_def sp sg using rest [of 1] by (simp add: Let_def)
  have nsp: "dropWhile is_space (CHR ''-'' # ds) = CHR ''-'' # ds" by (simp add: is_space_def)
  show "parseInt (CHR ''-'' # ds) = Some (- int (digits_value 10 ds))"
    unfolding parseInt_def Let_def nsp using rest [of "- 1"] by (simp add: Let_def)
qed

lemma parseInt_show_int: "parseInt (show_int i) = Some i"
proof -
  have ne: "show_nat n \<noteq> []" for n using length_show_nat_pos [of n] by auto
  show ?thesis
    using parseInt_digits [OF ne show_nat_digits]
    by (simp add: show_int_def digits_value_show_nat)
qed

lemma parseInt_number_to_string: "parseInt (number_to_string (add_number (Some n) k)) = Some (n + k)"
  by (simp add: number_to_string_def add_number_def parseInt_show_int)


section \<open>Vote buttons: theorems\<close>

subsection \<open>Class lists and text after an update\<close>



lemma contains_set_textContent:
  "\<not> strict_prefix p q \<Longrightarrow> classList_contains (set_textContent s p d) q c = classList_contains d q c"
  by (simp add: classList_contains_def set_textContent_def elem_attrs_update_children)




lemma matches_cong:
  "(\<And>s. s \<in> set sel \<Longrightarrow> matches_simple a s = matches_simple b s) \<Longrightarrow> matches sel a = matches sel b"
  unfolding matches_def list_ex_iff by (rule bex_cong) simp_all

lemma matches_simple_class_add:
  "s \<noteq> Cls c \<Longrightarrow> matches_simple (class_add c a) s = matches_simple a s"
  by (cases s) (simp_all add: class_add_def)

lemma matches_simple_class_remove:
  "s \<noteq> Cls c \<Longrightarrow> matches_simple (class_remove c a) s = matches_simple a s"
  by (cases s) (simp_all add: class_remove_def)

lemma matches_class_add: "Cls c \<notin> set sel \<Longrightarrow> matches sel (class_add c a) = matches sel a"
proof (rule matches_cong)
  fix s assume "Cls c \<notin> set sel" "s \<in> set sel"
  then have "s \<noteq> Cls c" by blast
  then show "matches_simple (class_add c a) s = matches_simple a s"
    by (rule matches_simple_class_add)
qed

lemma matches_class_remove: "Cls c \<notin> set sel \<Longrightarrow> matches sel (class_remove c a) = matches sel a"
proof (rule matches_cong)
  fix s assume "Cls c \<notin> set sel" "s \<in> set sel"
  then have "s \<noteq> Cls c" by blast
  then show "matches_simple (class_remove c a) s = matches_simple a s"
    by (rule matches_simple_class_remove)
qed

lemma matches_class_toggle: "Cls c \<notin> set sel \<Longrightarrow> matches sel (class_toggle c a) = matches sel a"
  by (simp add: class_toggle_def matches_class_add matches_class_remove)

lemma matches_display: "matches sel (a\<lparr>style_display := v\<rparr>) = matches sel a"
proof (rule matches_cong)
  fix s show "matches_simple (a\<lparr>style_display := v\<rparr>) s = matches_simple a s"
    by (cases s) simp_all
qed

lemma text_only: "descendants_list 0 (if s = [] then [] else [Text s]) = []"
  by simp



lemma closest_set_textContent:
  "\<not> strict_prefix p q \<Longrightarrow> closest sel (set_textContent s p d) q = closest sel d q"
  by (simp add: set_textContent_def closest_update_children)



lemma querySelector_set_textContent:
  "querySelector sel d c = Some r \<Longrightarrow> prefix c p \<Longrightarrow> \<not> strict_prefix p r \<Longrightarrow>
   querySelector sel (set_textContent s p d) c = Some r"
  unfolding set_textContent_def by (rule querySelector_update_children [OF text_only])

subsection \<open>One click on a vote button\<close>





subsection \<open>Any number of clicks on a vote widget\<close>
















section \<open>Text expansion: theorems\<close>

subsection \<open>More on updates\<close>

lemma contains_classList_toggle:
  "classList_contains (classList_toggle c p d) q c' =
     (if q = p then elem_attrs d p \<noteq> None \<and> (if c' = c then \<not> classList_contains d p c
                                                    else classList_contains d p c')
      else classList_contains d q c')"
  by (auto simp: classList_contains_def classList_toggle_def elem_attrs_update_attrs
      class_toggle_def class_add_def class_remove_def split: option.splits)

lemma contains_set_display: "classList_contains (set_display v p d) q c = classList_contains d q c"
  by (auto simp: classList_contains_def set_display_def elem_attrs_update_attrs split: option.splits)

lemma elem_classList_toggle: "(elem_attrs (classList_toggle c p d) q = None) = (elem_attrs d q = None)"
  by (simp add: classList_toggle_def elem_attrs_update_attrs)

lemma elem_set_display: "(elem_attrs (set_display v p d) q = None) = (elem_attrs d q = None)"
  by (simp add: set_display_def elem_attrs_update_attrs)

lemma elem_set_textContent:
  "\<not> strict_prefix p q \<Longrightarrow> (elem_attrs (set_textContent s p d) q = None) = (elem_attrs d q = None)"
  by (simp add: set_textContent_def elem_attrs_update_children)

lemma get_display_set_display:
  "get_display (set_display v p d) q =
     (if q = p then (if elem_attrs d p = None then [] else v) else get_display d q)"
  by (auto simp: get_display_def set_display_def elem_attrs_update_attrs split: option.splits)

lemma text_of_map_attrs: "text_of (map_attrs g n) = text_of n"
  by (cases n) simp_all

lemma textContent_set_display:
  assumes "\<not> strict_prefix q p"
  shows "textContent (set_display v p d) q = textContent d q"
proof (cases "prefix q p")
  case True
  with assms have "p = q" by (auto simp: strict_prefix_def)
  then show ?thesis
    by (auto simp: textContent_def set_display_def get_update_same text_of_map_attrs
        split: option.splits)
next
  case False
  then show ?thesis by (simp add: textContent_def set_display_def get_update_attrs)
qed

lemma closest_classList_toggle:
  "Cls c \<notin> set sel \<Longrightarrow> closest sel (classList_toggle c p d) q = closest sel d q"
  by (simp add: classList_toggle_def closest_update_attrs matches_class_toggle)

lemma closest_set_display: "closest sel (set_display v p d) q = closest sel d q"
  by (simp add: set_display_def closest_update_attrs matches_display)

lemma querySelector_classList_toggle:
  "Cls c \<notin> set sel \<Longrightarrow> querySelector sel (classList_toggle c p d) q = querySelector sel d q"
  by (simp add: classList_toggle_def querySelector_update_attrs matches_class_toggle)

lemma querySelector_set_display: "querySelector sel (set_display v p d) q = querySelector sel d q"
  by (simp add: set_display_def querySelector_update_attrs matches_display)

lemma querySelector_set_textContent_None:
  "querySelector sel d c = None \<Longrightarrow> prefix c p \<Longrightarrow> querySelector sel (set_textContent s p d) c = None"
  unfolding set_textContent_def by (rule querySelector_update_children_None [OF text_only])

subsection \<open>One click on an expand button\<close>

lemma expand_click_unfold:
  assumes "expand_widget d c this t fade"
  shows "expand_click d this =
    (let e = \<not> classList_contains d t ''expanded'';
         d = classList_toggle ''expanded'' t d;
         d = set_textContent (if e then ''Show less'' else ''Read more'') this d
     in case fade of Some f \<Rightarrow> set_display (if e then ''none'' else ''block'') f d | None \<Rightarrow> d)"
proof -
  from assms have c: "closest [Cls ''post''] d this = Some c"
    and t: "querySelector [Cls ''post-text''] d c = Some t"
    and f: "querySelector [Cls ''post-text-fade''] d c = fade"
    by (simp_all add: expand_widget_def)
  from querySelector_Some [OF t] have "elem_attrs d t \<noteq> None" by auto
  with c t f show ?thesis
    by (cases fade) (simp_all add: expand_click_def Let_def contains_classList_toggle)
qed

lemma expand_click_effect:
  assumes w: "expand_widget d c this t fade"
  shows "expand_widget (expand_click d this) c this t fade
       \<and> classList_contains (expand_click d this) t ''expanded'' = (\<not> classList_contains d t ''expanded'')
       \<and> textContent (expand_click d this) this =
           (if classList_contains d t ''expanded'' then ''Read more'' else ''Show less'')
       \<and> (case fade of
             Some f \<Rightarrow> get_display (expand_click d this) f =
                         (if classList_contains d t ''expanded'' then ''block'' else ''none'')
           | None \<Rightarrow> True)"
proof -
  from w have el: "elem_attrs d this \<noteq> None"
    and c: "closest [Cls ''post''] d this = Some c"
    and t: "querySelector [Cls ''post-text''] d c = Some t"
    and f: "querySelector [Cls ''post-text-fade''] d c = fade"
    and nt: "\<not> strict_prefix this t"
    by (simp_all add: expand_widget_def)
  from querySelector_Some [OF t] have te: "elem_attrs d t \<noteq> None" by auto
  from closest_Some [OF c] have pc: "prefix c this" by simp
  let ?d1 = "classList_toggle ''expanded'' t d"
  have t1: "querySelector [Cls ''post-text''] ?d1 c = Some t"
    using t by (simp add: querySelector_classList_toggle)
  have el1: "elem_attrs ?d1 this \<noteq> None" using el by (simp add: elem_classList_toggle)
  show ?thesis
  proof (cases fade)
    case None
    with f have f1: "querySelector [Cls ''post-text-fade''] ?d1 c = None"
      by (simp add: querySelector_classList_toggle)
    have "expand_widget (set_textContent s this ?d1) c this t None" for s
      using el1 c nt pc querySelector_set_textContent [OF t1 pc nt]
        querySelector_set_textContent_None [OF f1 pc]
      by (simp add: expand_widget_def elem_set_textContent closest_set_textContent
          closest_classList_toggle)
    with None te el1 nt show ?thesis
      by (simp add: expand_click_unfold [OF w] Let_def contains_set_textContent
          contains_classList_toggle textContent_set_textContent)
  next
    case (Some f')
    with w have nf: "\<not> strict_prefix this f'" by (simp add: expand_widget_def)
    from Some f have f1: "querySelector [Cls ''post-text-fade''] ?d1 c = Some f'"
      by (simp add: querySelector_classList_toggle)
    from querySelector_Some [OF f1] have fe: "elem_attrs ?d1 f' \<noteq> None" by auto
    have "expand_widget (set_display v f' (set_textContent s this ?d1)) c this t (Some f')" for s v
      using el1 c nt nf pc querySelector_set_textContent [OF t1 pc nt]
        querySelector_set_textContent [OF f1 pc nf]
      by (simp add: expand_widget_def elem_set_textContent closest_set_textContent
          closest_classList_toggle elem_set_display closest_set_display querySelector_set_display)
    with Some te el1 nt nf fe show ?thesis
      by (simp add: expand_click_unfold [OF w] Let_def contains_set_textContent
          contains_classList_toggle textContent_set_textContent contains_set_display
          textContent_set_display get_display_set_display elem_set_textContent)
  qed
qed

text \<open>
  C6 as stated fails for the fade element: in the sample post its inline \<open>display\<close> is
  empty before the first click and \<open>block\<close> after the second.
\<close>

theorem expand_two_clicks_change_fade_display:
  "expand_widget sample_post [] [5] [3] (Some [4])
   \<and> get_display sample_post [4] = []
   \<and> get_display (expand_click (expand_click sample_post [5]) [5]) [4] = ''block''"
  by code_simp

text \<open>
  C6, amended. In an expandable post, two clicks on the expand button return the presence
  of the \<open>expanded\<close> class on the text container to what it was, and leave the button
  label and the display of the fade element at the values the handler gives that state:
  \<open>Read more\<close> and \<open>block\<close> when collapsed, \<open>Show less\<close> and \<open>none\<close> when expanded. A
  third click gives the state after the first: from the first click on, the handler
  alternates between two states.
\<close>

theorem expand_two_clicks:
  assumes "expand_widget d c this t fade"
  shows "let e = classList_contains d t ''expanded'';
             d1 = expand_click d this;
             d2 = expand_click d1 this;
             d3 = expand_click d2 this
         in classList_contains d2 t ''expanded'' = e
          \<and> textContent d2 this = (if e then ''Show less'' else ''Read more'')
          \<and> (case fade of Some f \<Rightarrow> get_display d2 f = (if e then ''none'' else ''block'') | None \<Rightarrow> True)
          \<and> classList_contains d3 t ''expanded'' = classList_contains d1 t ''expanded''
          \<and> textContent d3 this = textContent d1 this
          \<and> (case fade of Some f \<Rightarrow> get_display d3 f = get_display d1 f | None \<Rightarrow> True)"
proof -
  note s1 = expand_click_effect [OF assms]
  from s1 have w1: "expand_widget (expand_click d this) c this t fade" by simp
  note s2 = expand_click_effect [OF w1]
  from s2 have w2: "expand_widget (expand_click (expand_click d this) this) c this t fade" by simp
  note s3 = expand_click_effect [OF w2]
  from s1 s2 s3 show ?thesis
    by (cases fade) (simp_all add: Let_def)
qed

theorem expand_two_clicks_witness:
  "expand_widget sample_post [] [5] [3] (Some [4])
   \<and> \<not> classList_contains (expand_click (expand_click sample_post [5]) [5]) [3] ''expanded''
   \<and> textContent (expand_click (expand_click sample_post [5]) [5]) [5] = ''Read more''
   \<and> get_display (expand_click (expand_click sample_post [5]) [5]) [4] = ''block''"
proof -
  have h: "expand_widget sample_post [] [5] [3] (Some [4])" by code_simp
  have e: "classList_contains sample_post [3] ''expanded'' = False" by code_simp
  from expand_two_clicks [OF h] h show ?thesis
    by (simp add: Let_def e)
qed


section \<open>Post and comment actions: theorems\<close>

text \<open>
  C8 fails on the code: a click on a \<open>.post-action\<close> with no \<open>.post\<close> ancestor, on a
  \<open>.comment-action\<close> with no \<open>.comment\<close> ancestor, or on a reply action with no
  \<open>.comment-actions\<close> ancestor raises a \<open>TypeError\<close>.
\<close>

theorem action_without_ancestor_raises:
  "post_action_click stray_post_action [0] = Inl TypeError
   \<and> comment_action_click stray_comment_action [0] = Inl TypeError
   \<and> comment_action_click bare_comment [0] = Inl TypeError"
  by code_simp

section \<open>Reply forms: theorems\<close>

subsection \<open>Inserting a child\<close>








subsection \<open>Counting matches\<close>





lemma first_match_None_count:
  "first_match sel n = None \<Longrightarrow> length (filter (\<lambda>(q, a). matches sel a) (descendants n)) = 0"
  by (auto simp: first_match_def find_None_iff filter_empty_conv)









subsection \<open>Clicks on a reply action\<close>











lemma querySelector_None_count:
  "querySelector sel d c = None \<Longrightarrow> count_matches sel d c = 0"
  using first_match_None_count [of sel]
  by (auto simp: querySelector_def count_matches_def split: option.splits)






end
